theory Spec2Isabelle
  imports Main "HOL-Library.Word"
begin

section \<open>The C values and the state of the process\<close>

text \<open>
  The library has one exported function, \<open>dyloading_add\<close> in \<open>external_lib/dylib.c\<close>:
  \<^verbatim>\<open>
  int32_t dyloading_add(int32_t a, int32_t b, char *result)
  {
      printf("[External dyloading] Hello %s\n", result);
      int32_t sum = a + b;
      sprintf(result,"[External dyloading] The result (%d + %d) is %d!", a, b, sum);
      return sum;
  }
  \<close>
  An \<open>int32_t\<close> is a 32-bit word read as two's complement by \<open>sint\<close>. ISO C leaves the
  overflow of a signed addition undefined; the model takes the wrap-around that the two
  toolchains named in the source (MSBuild on Windows, gcc on Linux) produce for it.
\<close>

type_synonym int32_t = "32 word"

definition NUL :: char where
  "NUL = CHR 0x00"

definition NL :: char where
  "NL = CHR ''\<newline>''"

text \<open>
  Memory is a collection of objects (arrays of \<open>char\<close>), each with its own length. A
  \<open>char *\<close> names an object and a position in it.
\<close>

record ptr =
  block :: nat
  offset :: nat

text \<open>
  What C leaves undefined is a value of the model: a pointer to no object, a read that
  runs off the end of an object before a \<open>NUL\<close>, a write that runs off the end, and a
  format directive without a matching argument.
\<close>

datatype fault = InvalidPointer | ReadOverrun | WriteOverrun | BadFormat

record world =
  stdout :: string
  heap :: "nat \<rightharpoonup> char list"

text \<open>The string at a pointer: the bytes from the pointer up to the first \<open>NUL\<close>.\<close>

definition load_string :: "ptr \<Rightarrow> 'a world_scheme \<Rightarrow> fault + string" where
  "load_string p w =
     (case heap w (block p) of
        None \<Rightarrow> Inl InvalidPointer
      | Some obj \<Rightarrow>
          if NUL \<in> set (drop (offset p) obj)
          then Inr (takeWhile (\<lambda>c. c \<noteq> NUL) (drop (offset p) obj))
          else Inl ReadOverrun)"

text \<open>Storing bytes at a pointer: they must fit between the pointer and the end of its object.\<close>

definition store_bytes :: "ptr \<Rightarrow> char list \<Rightarrow> 'a world_scheme \<Rightarrow> fault + 'a world_scheme" where
  "store_bytes p bs w =
     (case heap w (block p) of
        None \<Rightarrow> Inl InvalidPointer
      | Some obj \<Rightarrow>
          if offset p + length bs \<le> length obj
          then Inr (w\<lparr>heap := (heap w)(block p \<mapsto>
                  take (offset p) obj @ bs @ drop (offset p + length bs) obj)\<rparr>)
          else Inl WriteOverrun)"

section \<open>The C library: formatted output\<close>

text \<open>
  The conversion \<open>%d\<close> of an \<open>int\<close>: the digits are produced from the least significant
  one, each looked up in the table of digit characters; a negative value gets a minus sign
  in front. There is no padding and no precision, so the least number of digits is one.
\<close>

definition digit_char :: "nat \<Rightarrow> char" where
  "digit_char d = ''0123456789'' ! d"

fun dec_digits :: "nat \<Rightarrow> string \<Rightarrow> string" where
  "dec_digits n acc =
     (if n < 10 then digit_char n # acc
      else dec_digits (n div 10) (digit_char (n mod 10) # acc))"

declare dec_digits.simps [simp del]

definition fmt_d :: "int32_t \<Rightarrow> string" where
  "fmt_d x =
     (if sint x < 0 then CHR ''-'' # dec_digits (nat (- sint x)) []
      else dec_digits (nat (sint x)) [])"

datatype arg = ArgInt int32_t | ArgPtr ptr

definition emit :: "string \<Rightarrow> fault + string \<Rightarrow> fault + string" where
  "emit s r = (case r of Inl e \<Rightarrow> Inl e | Inr t \<Rightarrow> Inr (s @ t))"

text \<open>
  The text a format string produces from its arguments. Of the directives only \<open>%d\<close>,
  \<open>%s\<close> and \<open>%%\<close> are modelled, which are all the source uses; arguments left over are
  ignored, as in C.
\<close>

fun c_format :: "string \<Rightarrow> arg list \<Rightarrow> 'a world_scheme \<Rightarrow> fault + string" where
  "c_format [] args w = Inr []"
| "c_format (c # fmt) args w =
     (if c \<noteq> CHR ''%'' then emit [c] (c_format fmt args w)
      else case fmt of
        [] \<Rightarrow> Inl BadFormat
      | d # fmt' \<Rightarrow>
          if d = CHR ''d'' then
            (case args of
               ArgInt i # args' \<Rightarrow> emit (fmt_d i) (c_format fmt' args' w)
             | _ \<Rightarrow> Inl BadFormat)
          else if d = CHR ''s'' then
            (case args of
               ArgPtr p # args' \<Rightarrow>
                 (case load_string p w of
                    Inl e \<Rightarrow> Inl e
                  | Inr s \<Rightarrow> emit s (c_format fmt' args' w))
             | _ \<Rightarrow> Inl BadFormat)
          else if d = CHR ''%'' then emit ''%'' (c_format fmt' args w)
          else Inl BadFormat)"

text \<open>\<open>printf\<close> appends the text to standard output. Its return value is not used by the source.\<close>

definition printf :: "string \<Rightarrow> arg list \<Rightarrow> 'a world_scheme \<Rightarrow> fault + 'a world_scheme" where
  "printf fmt args w =
     (case c_format fmt args w of
        Inl e \<Rightarrow> Inl e
      | Inr s \<Rightarrow> Inr (w\<lparr>stdout := stdout w @ s\<rparr>))"

text \<open>\<open>sprintf\<close> stores the text and a terminating \<open>NUL\<close> at the destination, with no bound.\<close>

definition sprintf :: "ptr \<Rightarrow> string \<Rightarrow> arg list \<Rightarrow> 'a world_scheme \<Rightarrow> fault + 'a world_scheme" where
  "sprintf dst fmt args w =
     (case c_format fmt args w of
        Inl e \<Rightarrow> Inl e
      | Inr s \<Rightarrow> store_bytes dst (s @ [NUL]) w)"

section \<open>The exported function\<close>

definition dyloading_add ::
  "int32_t \<Rightarrow> int32_t \<Rightarrow> ptr \<Rightarrow> 'a world_scheme \<Rightarrow> fault + (int32_t \<times> 'a world_scheme)" where
  "dyloading_add a b result w =
     (case printf ''[External dyloading] Hello %s\<newline>'' [ArgPtr result] w of
        Inl e \<Rightarrow> Inl e
      | Inr w1 \<Rightarrow>
          let sum = a + b in
          (case sprintf result ''[External dyloading] The result (%d + %d) is %d!''
                  [ArgInt a, ArgInt b, ArgInt sum] w1 of
             Inl e \<Rightarrow> Inl e
           | Inr w2 \<Rightarrow> Inr (sum, w2)))"

section \<open>Calls that C defines\<close>

text \<open>
  The text the second format string produces (lemma \<open>c_format_result\<close> below), as a
  function of the three numbers.
\<close>

definition result_text :: "int32_t \<Rightarrow> int32_t \<Rightarrow> int32_t \<Rightarrow> string" where
  "result_text x y z =
     ''[External dyloading] The result ('' @ fmt_d x @ '' + '' @ fmt_d y @
     '') is '' @ fmt_d z @ ''!''"

text \<open>The number of bytes from a pointer to the end of its object.\<close>

definition capacity :: "ptr \<Rightarrow> 'a world_scheme \<Rightarrow> nat" where
  "capacity p w = (case heap w (block p) of None \<Rightarrow> 0 | Some obj \<Rightarrow> length obj - offset p)"

definition readable_string :: "ptr \<Rightarrow> 'a world_scheme \<Rightarrow> bool" where
  "readable_string p w =
     (case heap w (block p) of None \<Rightarrow> False | Some obj \<Rightarrow> NUL \<in> set (drop (offset p) obj))"

text \<open>
  A call is valid when \<open>result\<close> points at a \<open>NUL\<close>-terminated string and the buffer has
  room for the message and its terminator. Lemma \<open>dyloading_add_defined_iff\<close> shows that
  these are exactly the calls that return.
\<close>

definition valid_call :: "int32_t \<Rightarrow> int32_t \<Rightarrow> ptr \<Rightarrow> 'a world_scheme \<Rightarrow> bool" where
  "valid_call a b result w =
     (readable_string result w \<and> length (result_text a b (a + b)) < capacity result w)"

text \<open>The byte at position \<open>i\<close> of the buffer that starts at a pointer.\<close>

definition byte_at :: "ptr \<Rightarrow> nat \<Rightarrow> 'a world_scheme \<Rightarrow> char option" where
  "byte_at p i w =
     (case heap w (block p) of
        None \<Rightarrow> None
      | Some obj \<Rightarrow> if offset p + i < length obj then Some (obj ! (offset p + i)) else None)"

text \<open>The text a call has added to standard output.\<close>

definition written :: "'a world_scheme \<Rightarrow> 'a world_scheme \<Rightarrow> string" where
  "written w w' = drop (length (stdout w)) (stdout w')"

text \<open>
  What a caller observes of a call: the fault or else the value returned, the buffer
  object afterwards, and the text that standard output has gained.
\<close>

definition observe ::
  "ptr \<Rightarrow> 'a world_scheme \<Rightarrow> fault + (int32_t \<times> 'a world_scheme) \<Rightarrow>
   fault + (int32_t \<times> char list option \<times> string)" where
  "observe p w res =
     (case res of
        Inl e \<Rightarrow> Inl e
      | Inr (r, w') \<Rightarrow> Inr (r, heap w' (block p), written w w'))"

text \<open>A reading of the world after a call, where the call returns.\<close>

definition after ::
  "('a world_scheme \<Rightarrow> 'b) \<Rightarrow> fault + (int32_t \<times> 'a world_scheme) \<Rightarrow> 'b option" where
  "after f res = (case res of Inl e \<Rightarrow> None | Inr (r, w') \<Rightarrow> Some (f w'))"

section \<open>Decimal text and lines, as the specification words them\<close>

definition is_digit :: "char \<Rightarrow> bool" where
  "is_digit c = (48 \<le> (of_char c :: nat) \<and> (of_char c :: nat) \<le> 57)"

definition digit_value :: "char \<Rightarrow> nat" where
  "digit_value c = of_char c - 48"

definition digits_value :: "string \<Rightarrow> nat" where
  "digits_value s = foldl (\<lambda>v c. 10 * v + digit_value c) 0 s"

text \<open>
  \<open>s\<close> is the decimal text of \<open>n\<close>: at least one digit, digits only, no leading zero
  (a zero in front only when the text is \<open>0\<close>), and the digits denote \<open>n\<close>.
\<close>

definition decimal_nat :: "nat \<Rightarrow> string \<Rightarrow> bool" where
  "decimal_nat n s =
     (s \<noteq> [] \<and> list_all is_digit s \<and> (hd s = CHR ''0'' \<longrightarrow> s = ''0'') \<and>
      digits_value s = n)"

text \<open>The decimal text of an integer: a minus sign in front exactly when it is negative.\<close>

definition decimal_text :: "int \<Rightarrow> string \<Rightarrow> bool" where
  "decimal_text i s =
     (if i < 0 then s \<noteq> [] \<and> hd s = CHR ''-'' \<and> decimal_nat (nat (- i)) (tl s)
      else decimal_nat (nat i) s)"

text \<open>The lines of a text: a newline ends a line.\<close>

fun lines_of :: "string \<Rightarrow> string list" where
  "lines_of [] = []"
| "lines_of (c # cs) =
     (if c = NL then [] # lines_of cs
      else case lines_of cs of [] \<Rightarrow> [[c]] | l # ls \<Rightarrow> (c # l) # ls)"

section \<open>Sample calls\<close>

definition demo_buf :: ptr where
  "demo_buf = \<lparr>block = 0, offset = 0\<rparr>"

text \<open>An 80-byte buffer that holds the label \<open>Rust\<close>, with nothing yet on standard output.\<close>

definition demo_world :: world where
  "demo_world =
     \<lparr>stdout = [], heap = [0 \<mapsto> ''Rust'' @ NUL # replicate 75 (CHR ''x'')]\<rparr>"

text \<open>
  The process after the call \<open>dyloading_add 2 3\<close> on \<open>demo_world\<close>, with the buffer reset to
  what it held before that call (lemma \<open>later_world_second_call\<close>).
\<close>

definition later_world :: world where
  "later_world =
     \<lparr>stdout = ''[External dyloading] Hello Rust\<newline>'',
      heap = [0 \<mapsto> ''Rust'' @ NUL # replicate 75 (CHR ''x'')]\<rparr>"

text \<open>An 80-byte buffer whose label spans two lines.\<close>

definition two_line_world :: world where
  "two_line_world =
     \<lparr>stdout = [], heap = [0 \<mapsto> ''a\<newline>b'' @ NUL # replicate 76 (CHR ''x'')]\<rparr>"

section \<open>Formatted text of the two calls\<close>

lemma c_format_hello:
  "c_format ''[External dyloading] Hello %s\<newline>'' [ArgPtr p] w =
     (case load_string p w of
        Inl e \<Rightarrow> Inl e
      | Inr s \<Rightarrow> Inr (''[External dyloading] Hello '' @ s @ [NL]))"
  by (simp add: emit_def NL_def split: sum.split)

lemma c_format_result:
  "c_format ''[External dyloading] The result (%d + %d) is %d!''
      [ArgInt x, ArgInt y, ArgInt z] w =
     Inr (''[External dyloading] The result ('' @ fmt_d x @ '' + '' @ fmt_d y @
          '') is '' @ fmt_d z @ ''!'')"
  by (simp add: emit_def)

section \<open>The conversion of a number to decimal text\<close>

lemma digit_char_cases:
  assumes "d < 10"
  shows "is_digit (digit_char d) \<and> digit_value (digit_char d) = d \<and> digit_char d \<noteq> NUL \<and> (digit_char d = CHR ''0'' \<longleftrightarrow> d = 0)"
proof -
  from assms have "d = 0 \<or> d = 1 \<or> d = 2 \<or> d = 3 \<or> d = 4 \<or>
      d = 5 \<or> d = 6 \<or> d = 7 \<or> d = 8 \<or> d = 9"
    by arith
  then show ?thesis
    by (elim disjE) (simp_all add: is_digit_def digit_value_def digit_char_def NUL_def)
qed

lemma dec_digits_acc: "dec_digits n acc = dec_digits n [] @ acc"
proof (induction n arbitrary: acc rule: less_induct)
  case (less n)
  show ?case
  proof (cases "n < 10")
    case True
    then show ?thesis by (simp add: dec_digits.simps)
  next
    case False
    then have lt: "n div 10 < n" by simp
    have "dec_digits n acc = dec_digits (n div 10) (digit_char (n mod 10) # acc)"
      using False by (simp add: dec_digits.simps)
    also have "\<dots> = dec_digits (n div 10) [] @ digit_char (n mod 10) # acc"
      by (rule less.IH [OF lt])
    also have "\<dots> = (dec_digits (n div 10) [] @ [digit_char (n mod 10)]) @ acc"
      by simp
    also have "dec_digits (n div 10) [] @ [digit_char (n mod 10)] = dec_digits n []"
      using False less.IH [OF lt, of "[digit_char (n mod 10)]"] by (simp add: dec_digits.simps)
    finally show ?thesis .
  qed
qed

lemma dec_digits_small: "n < 10 \<Longrightarrow> dec_digits n [] = [digit_char n]"
  by (simp add: dec_digits.simps)

lemma dec_digits_step: "\<not> n < 10 \<Longrightarrow> dec_digits n [] = dec_digits (n div 10) [] @ [digit_char (n mod 10)]"
  using dec_digits_acc [of "n div 10" "[digit_char (n mod 10)]"] by (simp add: dec_digits.simps)

lemma digits_value_snoc: "digits_value (s @ [c]) = 10 * digits_value s + digit_value c"
  by (simp add: digits_value_def)

lemma dec_digits_value: "digits_value (dec_digits n []) = n"
proof (induction n rule: less_induct)
  case (less n)
  show ?case
  proof (cases "n < 10")
    case True
    then show ?thesis by (simp add: dec_digits_small digits_value_def digit_char_cases)
  next
    case False
    then have "n div 10 < n" by simp
    then have "digits_value (dec_digits (n div 10) []) = n div 10" by (rule less.IH)
    then show ?thesis
      using False by (simp add: dec_digits_step digits_value_snoc digit_char_cases)
  qed
qed

lemma dec_digits_all_digits: "list_all is_digit (dec_digits n [])"
proof (induction n rule: less_induct)
  case (less n)
  show ?case
  proof (cases "n < 10")
    case True
    then show ?thesis by (simp add: dec_digits_small digit_char_cases)
  next
    case False
    then have "n div 10 < n" by simp
    then have "list_all is_digit (dec_digits (n div 10) [])" by (rule less.IH)
    then show ?thesis
      using False by (simp add: dec_digits_step digit_char_cases)
  qed
qed

lemma dec_digits_nonempty: "dec_digits n [] \<noteq> []"
  by (cases "n < 10") (simp_all add: dec_digits_small dec_digits_step)

lemma dec_digits_hd: "hd (dec_digits n []) = CHR ''0'' \<Longrightarrow> n = 0"
proof (induction n rule: less_induct)
  case (less n)
  show ?case
  proof (cases "n < 10")
    case True
    with less.prems show ?thesis by (simp add: dec_digits_small digit_char_cases)
  next
    case False
    then have lt: "n div 10 < n" by simp
    have "hd (dec_digits n []) = hd (dec_digits (n div 10) [])"
      using False by (simp add: dec_digits_step dec_digits_nonempty)
    with less.prems have "n div 10 = 0" using less.IH [OF lt] by simp
    with False show ?thesis by simp
  qed
qed

lemma dec_digits_length: "0 < k \<Longrightarrow> n < 10 ^ k \<Longrightarrow> length (dec_digits n []) \<le> k"
proof (induction k arbitrary: n)
  case 0
  then show ?case by simp
next
  case (Suc k)
  show ?case
  proof (cases "n < 10")
    case True
    then show ?thesis by (simp add: dec_digits_small)
  next
    case False
    then have "0 < k" using Suc.prems by (cases k) simp_all
    moreover have "n div 10 < 10 ^ k" using Suc.prems by (simp add: less_mult_imp_div_less mult.commute)
    ultimately have "length (dec_digits (n div 10) []) \<le> k" by (rule Suc.IH)
    then show ?thesis using False by (simp add: dec_digits_step)
  qed
qed

lemma decimal_nat_dec_digits: "decimal_nat n (dec_digits n [])"
  unfolding decimal_nat_def
  using dec_digits_hd [of n]
  by (auto simp add: dec_digits_nonempty dec_digits_all_digits dec_digits_value dec_digits_small digit_char_def)

lemma decimal_text_fmt_d: "decimal_text (sint x) (fmt_d x)"
  by (simp add: decimal_text_def fmt_d_def decimal_nat_dec_digits)

lemma sint32_bounds: "- 2147483648 \<le> sint (x :: int32_t) \<and> sint x < 2147483648"
  using sint_ge [of x] sint_lt [of x] by simp

lemma length_fmt_d: "length (fmt_d x) \<le> 11"
proof -
  have "nat (- sint x) < 10000000000" and "nat (sint x) < 10000000000"
    using sint32_bounds [of x] by linarith+
  then have a: "nat (- sint x) < 10 ^ 10" and b: "nat (sint x) < 10 ^ 10"
    by simp_all
  show ?thesis
    using dec_digits_length [OF _ a] dec_digits_length [OF _ b] by (simp add: fmt_d_def)
qed

lemma NUL_notin_dec_digits: "NUL \<notin> set (dec_digits n [])"
proof -
  have "\<not> is_digit NUL" by (simp add: is_digit_def NUL_def)
  then show ?thesis using dec_digits_all_digits [of n] by (auto simp add: list_all_iff)
qed

lemma NUL_notin_fmt_d: "NUL \<notin> set (fmt_d x)"
  by (simp add: fmt_d_def NUL_notin_dec_digits) (simp add: NUL_def)

text \<open>The decimal text of a number is unique: it is the text the conversion produces.\<close>

lemma digit_char_of_digit:
  assumes "is_digit c"
  shows "digit_value c < 10 \<and> digit_char (digit_value c) = c"
proof -
  define k :: nat where "k = of_char c"
  from assms have "48 \<le> k" and "k \<le> 57" by (simp_all add: is_digit_def k_def)
  then have "k = 48 \<or> k = 49 \<or> k = 50 \<or> k = 51 \<or> k = 52 \<or>
      k = 53 \<or> k = 54 \<or> k = 55 \<or> k = 56 \<or> k = 57"
    by arith
  then have "c = CHR ''0'' \<or> c = CHR ''1'' \<or> c = CHR ''2'' \<or> c = CHR ''3'' \<or>
      c = CHR ''4'' \<or> c = CHR ''5'' \<or> c = CHR ''6'' \<or> c = CHR ''7'' \<or>
      c = CHR ''8'' \<or> c = CHR ''9''"
  proof (elim disjE)
    assume "k = 48"
    then have "of_char c = (of_char (CHR ''0'') :: nat)" by (simp add: k_def)
    then show ?thesis by (simp only: of_char_eq_iff) simp
  next
    assume "k = 49"
    then have "of_char c = (of_char (CHR ''1'') :: nat)" by (simp add: k_def)
    then show ?thesis by (simp only: of_char_eq_iff) simp
  next
    assume "k = 50"
    then have "of_char c = (of_char (CHR ''2'') :: nat)" by (simp add: k_def)
    then show ?thesis by (simp only: of_char_eq_iff) simp
  next
    assume "k = 51"
    then have "of_char c = (of_char (CHR ''3'') :: nat)" by (simp add: k_def)
    then show ?thesis by (simp only: of_char_eq_iff) simp
  next
    assume "k = 52"
    then have "of_char c = (of_char (CHR ''4'') :: nat)" by (simp add: k_def)
    then show ?thesis by (simp only: of_char_eq_iff) simp
  next
    assume "k = 53"
    then have "of_char c = (of_char (CHR ''5'') :: nat)" by (simp add: k_def)
    then show ?thesis by (simp only: of_char_eq_iff) simp
  next
    assume "k = 54"
    then have "of_char c = (of_char (CHR ''6'') :: nat)" by (simp add: k_def)
    then show ?thesis by (simp only: of_char_eq_iff) simp
  next
    assume "k = 55"
    then have "of_char c = (of_char (CHR ''7'') :: nat)" by (simp add: k_def)
    then show ?thesis by (simp only: of_char_eq_iff) simp
  next
    assume "k = 56"
    then have "of_char c = (of_char (CHR ''8'') :: nat)" by (simp add: k_def)
    then show ?thesis by (simp only: of_char_eq_iff) simp
  next
    assume "k = 57"
    then have "of_char c = (of_char (CHR ''9'') :: nat)" by (simp add: k_def)
    then show ?thesis by (simp only: of_char_eq_iff) simp
  qed
  then show ?thesis
    by (elim disjE) (simp_all add: digit_value_def digit_char_def)
qed

lemma decimal_nat_is_dec_digits: "decimal_nat n s \<Longrightarrow> s = dec_digits n []"
proof (induction s arbitrary: n rule: rev_induct)
  case Nil
  then show ?case by (simp add: decimal_nat_def)
next
  case (snoc c s)
  from snoc.prems have dig: "is_digit c" and digs: "list_all is_digit s"
    and val: "10 * digits_value s + digit_value c = n"
    and lead: "hd (s @ [c]) = CHR ''0'' \<longrightarrow> s @ [c] = ''0''"
    by (simp_all add: decimal_nat_def digits_value_snoc)
  from dig have small: "digit_value c < 10" and same: "digit_char (digit_value c) = c"
    using digit_char_of_digit by blast+
  show ?case
  proof (cases "s = []")
    case True
    with val small same show ?thesis by (simp add: digits_value_def dec_digits_small)
  next
    case False
    with lead have nz: "hd s \<noteq> CHR ''0''" by auto
    with False digs have "decimal_nat (digits_value s) s" by (simp add: decimal_nat_def)
    then have s: "s = dec_digits (digits_value s) []" by (rule snoc.IH)
    have "digits_value s \<noteq> 0"
    proof
      assume "digits_value s = 0"
      with s have "s = dec_digits 0 []" by simp
      then have "s = ''0''" by (simp add: dec_digits_small digit_char_def)
      with nz show False by simp
    qed
    with val have big: "\<not> n < 10" by arith
    from small have "n div 10 = digits_value s" and "n mod 10 = digit_value c"
      by (simp_all add: val [symmetric])
    with same big have "dec_digits n [] = dec_digits (digits_value s) [] @ [c]"
      by (simp add: dec_digits_step)
    with s show ?thesis by simp
  qed
qed

lemma decimal_text_unique:
  assumes "decimal_text i s" and "decimal_text i t"
  shows "s = t"
proof (cases "i < 0")
  case True
  with assms have "tl s = dec_digits (nat (- i)) []" and "tl t = dec_digits (nat (- i)) []"
    and "s \<noteq> []" and "t \<noteq> []" and "hd s = CHR ''-''" and "hd t = CHR ''-''"
    by (simp_all add: decimal_text_def decimal_nat_is_dec_digits)
  then show ?thesis by (cases s; cases t) simp_all
next
  case False
  with assms have "s = dec_digits (nat i) []" and "t = dec_digits (nat i) []"
    by (simp_all add: decimal_text_def decimal_nat_is_dec_digits)
  then show ?thesis by simp
qed

section \<open>What a call does\<close>

lemma printf_hello:
  "printf ''[External dyloading] Hello %s\<newline>'' [ArgPtr p] w =
     (case load_string p w of
        Inl e \<Rightarrow> Inl e
      | Inr s \<Rightarrow> Inr (w\<lparr>stdout := stdout w @ ''[External dyloading] Hello '' @ s @ [NL]\<rparr>))"
  by (simp only: printf_def c_format_hello) (simp split: sum.split)

lemma sprintf_result:
  "sprintf p ''[External dyloading] The result (%d + %d) is %d!''
      [ArgInt x, ArgInt y, ArgInt z] w =
     store_bytes p (result_text x y z @ [NUL]) w"
  by (simp only: sprintf_def c_format_result result_text_def) simp

lemma load_string_stdout: "load_string p (w\<lparr>stdout := t\<rparr>) = load_string p w"
  by (simp add: load_string_def)

text \<open>The whole behaviour of a call, fault by fault.\<close>

lemma dyloading_add_eq:
  "dyloading_add a b result w =
     (case heap w (block result) of
        None \<Rightarrow> Inl InvalidPointer
      | Some obj \<Rightarrow>
          if NUL \<notin> set (drop (offset result) obj) then Inl ReadOverrun
          else if length obj < offset result + length (result_text a b (a + b)) + 1
            then Inl WriteOverrun
          else Inr (a + b,
            w\<lparr>stdout := stdout w @ ''[External dyloading] Hello '' @
                 takeWhile (\<lambda>c. c \<noteq> NUL) (drop (offset result) obj) @ [NL],
              heap := (heap w)(block result \<mapsto>
                 take (offset result) obj @ (result_text a b (a + b) @ [NUL]) @
                 drop (offset result + (length (result_text a b (a + b)) + 1)) obj)\<rparr>))"
  by (simp only: dyloading_add_def printf_hello sprintf_result Let_def)
     (simp add: load_string_def store_bytes_def split: option.split)

lemma dyloading_add_defined_iff:
  "(\<exists>r w'. dyloading_add a b result w = Inr (r, w')) \<longleftrightarrow> valid_call a b result w"
  by (auto simp add: dyloading_add_eq valid_call_def readable_string_def capacity_def
      split: option.split)

lemma valid_callE:
  assumes "valid_call a b result w"
  obtains obj where "heap w (block result) = Some obj"
    and "NUL \<in> set (drop (offset result) obj)"
    and "offset result + length (result_text a b (a + b)) < length obj"
    and "dyloading_add a b result w = Inr (a + b,
            w\<lparr>stdout := stdout w @ ''[External dyloading] Hello '' @
                 takeWhile (\<lambda>c. c \<noteq> NUL) (drop (offset result) obj) @ [NL],
              heap := (heap w)(block result \<mapsto>
                 take (offset result) obj @ (result_text a b (a + b) @ [NUL]) @
                 drop (offset result + (length (result_text a b (a + b)) + 1)) obj)\<rparr>)"
proof -
  from assms obtain obj where obj: "heap w (block result) = Some obj"
    by (auto simp add: valid_call_def readable_string_def split: option.splits)
  with assms have nul: "NUL \<in> set (drop (offset result) obj)"
    and room: "offset result + length (result_text a b (a + b)) < length obj"
    by (auto simp add: valid_call_def readable_string_def capacity_def)
  show thesis
  proof (rule that [OF obj nul room])
    from obj nul room show "dyloading_add a b result w = Inr (a + b,
            w\<lparr>stdout := stdout w @ ''[External dyloading] Hello '' @
                 takeWhile (\<lambda>c. c \<noteq> NUL) (drop (offset result) obj) @ [NL],
              heap := (heap w)(block result \<mapsto>
                 take (offset result) obj @ (result_text a b (a + b) @ [NUL]) @
                 drop (offset result + (length (result_text a b (a + b)) + 1)) obj)\<rparr>)"
      by (simp only: dyloading_add_eq) simp
  qed
qed

lemma length_result_text:
  "length (result_text x y z) = 42 + length (fmt_d x) + length (fmt_d y) + length (fmt_d z)"
  by (simp add: result_text_def)

lemma length_result_text_le: "length (result_text x y z) \<le> 75"
  using length_fmt_d [of x] length_fmt_d [of y] length_fmt_d [of z]
  by (simp add: length_result_text)

lemma NUL_notin_result_text: "NUL \<notin> set (result_text x y z)"
  by (simp add: result_text_def NUL_notin_fmt_d) (simp add: NUL_def)

text \<open>Reading back what \<open>sprintf\<close> stored.\<close>

lemma takeWhile_stored:
  "NUL \<notin> set t \<Longrightarrow> takeWhile (\<lambda>c. c \<noteq> NUL) (t @ NUL # rest) = t"
  by (induction t) auto

lemma load_string_stored:
  assumes "NUL \<notin> set t" and "offset p \<le> length obj"
  shows "load_string p (w\<lparr>stdout := out, heap := (heap w)(block p \<mapsto>
            take (offset p) obj @ (t @ [NUL]) @ rest)\<rparr>) = Inr t"
  using assms by (simp add: load_string_def takeWhile_stored)

section \<open>Lines of text\<close>

lemma lines_of_length:
  "length (lines_of (t @ [NL])) = Suc (length (filter (\<lambda>c. c = NL) t))"
proof (induction t)
  case Nil
  show ?case by simp
next
  case (Cons c t)
  then show ?case by (cases "lines_of (t @ [NL])") simp_all
qed

lemma lines_of_single: "NL \<notin> set t \<Longrightarrow> lines_of (t @ [NL]) = [t]"
  by (induction t) auto

lemma one_line_iff: "(lines_of (t @ [NL]) = [t]) = (NL \<notin> set t)"
proof
  assume one: "lines_of (t @ [NL]) = [t]"
  have "length (lines_of (t @ [NL])) = Suc (length (filter (\<lambda>c. c = NL) t))"
    by (rule lines_of_length)
  with one have "filter (\<lambda>c. c = NL) t = []" by simp
  then show "NL \<notin> set t" by (auto simp add: filter_empty_conv)
next
  assume "NL \<notin> set t"
  then show "lines_of (t @ [NL]) = [t]" by (rule lines_of_single)
qed

lemma hello_no_newline: "NL \<notin> set ''[External dyloading] Hello ''"
  by (simp add: NL_def)

section \<open>Overwriting a part of an object\<close>

lemma length_overwrite:
  "off + length bs \<le> length obj \<Longrightarrow>
   length (take off obj @ bs @ drop (off + length bs) obj) = length obj"
  by simp

lemma nth_overwrite_beyond:
  assumes "off + length bs \<le> k" and "k < length obj"
  shows "(take off obj @ bs @ drop (off + length bs) obj) ! k = obj ! k"
proof -
  from assms have off: "length (take off obj) = off" by simp
  from assms have "(take off obj @ bs @ drop (off + length bs) obj) ! k =
      (bs @ drop (off + length bs) obj) ! (k - off)"
    by (simp add: nth_append)
  also have "\<dots> = drop (off + length bs) obj ! (k - off - length bs)"
  proof -
    from assms have "\<not> k - off < length bs" by arith
    then show ?thesis by (simp add: nth_append)
  qed
  also have "\<dots> = obj ! k"
  proof -
    from assms have "off + length bs + (k - off - length bs) = k" by arith
    with assms show ?thesis by simp
  qed
  finally show ?thesis .
qed

lemma nth_overwrite_last:
  assumes "off \<le> length obj"
  shows "(take off obj @ (t @ [c]) @ rest) ! (off + length t) = c"
  using assms by (simp add: nth_append)

section \<open>Evaluating the sample calls\<close>

lemmas sample_defs =
  valid_call_def readable_string_def capacity_def demo_buf_def demo_world_def
  result_text_def fmt_d_def dec_digits.simps digit_char_def

section \<open>Signed addition of 32-bit values\<close>

lemma sint_add_in_range:
  fixes a b :: int32_t
  assumes "- (2 ^ 31) \<le> sint a + sint b" and "sint a + sint b < 2 ^ 31"
  shows "sint (a + b) = sint a + sint b"
  using assms by (simp add: sint_word_ariths signed_take_bit_int_eq_self)

lemma sint_add_wraps:
  fixes a b :: int32_t
  shows "sint (a + b) mod 2 ^ 32 = (sint a + sint b) mod 2 ^ 32"
proof -
  have "sint (a + b) = signed_take_bit 31 (sint a + sint b)"
    by (simp add: sint_word_ariths)
  then have "take_bit 32 (sint (a + b)) = take_bit 32 (sint a + sint b)"
    by (simp add: take_bit_signed_take_bit)
  then show ?thesis by (simp add: take_bit_eq_mod)
qed

section \<open>The buffer after a valid call\<close>

lemma buffer_after_valid_call:
  assumes "valid_call a b result w"
  shows "\<exists>w'. dyloading_add a b result w = Inr (a + b, w') \<and>
           load_string result w' = Inr (result_text a b (a + b))"
proof -
  from assms obtain obj where obj: "heap w (block result) = Some obj"
    and room: "offset result + length (result_text a b (a + b)) < length obj"
    and run: "dyloading_add a b result w = Inr (a + b,
            w\<lparr>stdout := stdout w @ ''[External dyloading] Hello '' @
                 takeWhile (\<lambda>c. c \<noteq> NUL) (drop (offset result) obj) @ [NL],
              heap := (heap w)(block result \<mapsto>
                 take (offset result) obj @ (result_text a b (a + b) @ [NUL]) @
                 drop (offset result + (length (result_text a b (a + b)) + 1)) obj)\<rparr>)"
    by (rule valid_callE)
  from room have le: "offset result \<le> length obj" by simp
  have "load_string result
          (w\<lparr>stdout := stdout w @ ''[External dyloading] Hello '' @
                 takeWhile (\<lambda>c. c \<noteq> NUL) (drop (offset result) obj) @ [NL],
              heap := (heap w)(block result \<mapsto>
                 take (offset result) obj @ (result_text a b (a + b) @ [NUL]) @
                 drop (offset result + (length (result_text a b (a + b)) + 1)) obj)\<rparr>) =
        Inr (result_text a b (a + b))"
    by (rule load_string_stored [OF NUL_notin_result_text le])
  with run show ?thesis by blast
qed

lemma stored_message:
  assumes "valid_call a b result w"
  obtains obj w' where "heap w (block result) = Some obj"
    and "offset result + length (result_text a b (a + b)) < length obj"
    and "dyloading_add a b result w = Inr (a + b, w')"
    and "heap w' (block result) =
           Some (take (offset result) obj @ (result_text a b (a + b) @ [NUL]) @
                 drop (offset result + length (result_text a b (a + b) @ [NUL])) obj)"
    and "load_string result w' = Inr (result_text a b (a + b))"
proof -
  from assms obtain obj where obj: "heap w (block result) = Some obj"
    and room: "offset result + length (result_text a b (a + b)) < length obj"
    and run: "dyloading_add a b result w = Inr (a + b,
            w\<lparr>stdout := stdout w @ ''[External dyloading] Hello '' @
                 takeWhile (\<lambda>c. c \<noteq> NUL) (drop (offset result) obj) @ [NL],
              heap := (heap w)(block result \<mapsto>
                 take (offset result) obj @ (result_text a b (a + b) @ [NUL]) @
                 drop (offset result + (length (result_text a b (a + b)) + 1)) obj)\<rparr>)"
    by (rule valid_callE)
  define w' where "w' = w\<lparr>stdout := stdout w @ ''[External dyloading] Hello '' @
                 takeWhile (\<lambda>c. c \<noteq> NUL) (drop (offset result) obj) @ [NL],
              heap := (heap w)(block result \<mapsto>
                 take (offset result) obj @ (result_text a b (a + b) @ [NUL]) @
                 drop (offset result + (length (result_text a b (a + b)) + 1)) obj)\<rparr>"
  from room have le: "offset result \<le> length obj" by simp
  have 1: "dyloading_add a b result w = Inr (a + b, w')"
    unfolding w'_def by (rule run)
  have 2: "heap w' (block result) =
           Some (take (offset result) obj @ (result_text a b (a + b) @ [NUL]) @
                 drop (offset result + length (result_text a b (a + b) @ [NUL])) obj)"
    by (simp add: w'_def)
  have 3: "load_string result w' = Inr (result_text a b (a + b))"
    unfolding w'_def by (rule load_string_stored [OF NUL_notin_result_text le])
  from obj room 1 2 3 show thesis by (rule that)
qed

lemma bytes_after_valid_call:
  assumes "valid_call a b result w"
  shows "\<exists>w'. dyloading_add a b result w = Inr (a + b, w') \<and>
           load_string result w' = Inr (result_text a b (a + b)) \<and>
           byte_at result (length (result_text a b (a + b))) w' = Some NUL \<and>
           (\<forall>i. length (result_text a b (a + b)) < i \<longrightarrow>
                byte_at result i w' = byte_at result i w)"
proof -
  define msg where "msg = result_text a b (a + b)"
  from assms obtain obj w' where obj: "heap w (block result) = Some obj"
    and room: "offset result + length msg < length obj"
    and run: "dyloading_add a b result w = Inr (a + b, w')"
    and obj': "heap w' (block result) =
           Some (take (offset result) obj @ (msg @ [NUL]) @
                 drop (offset result + length (msg @ [NUL])) obj)"
    and str: "load_string result w' = Inr msg"
    unfolding msg_def by (rule stored_message)
  define new where "new = take (offset result) obj @ (msg @ [NUL]) @
                 drop (offset result + length (msg @ [NUL])) obj"
  have new: "heap w' (block result) = Some new"
    unfolding new_def by (rule obj')
  from room have fits: "offset result + length (msg @ [NUL]) \<le> length obj" by simp
  have len: "length new = length obj"
    unfolding new_def using fits by (rule length_overwrite)
  have at_end: "new ! (offset result + length msg) = NUL"
    unfolding new_def using room by (intro nth_overwrite_last) simp
  have nul_at: "byte_at result (length msg) w' = Some NUL"
    using new room len at_end by (simp add: byte_at_def)
  have beyond: "byte_at result i w' = byte_at result i w" if "length msg < i" for i
  proof (cases "offset result + i < length obj")
    case True
    from that have "offset result + length (msg @ [NUL]) \<le> offset result + i" by simp
    then have "new ! (offset result + i) = obj ! (offset result + i)"
      unfolding new_def using True by (rule nth_overwrite_beyond)
    with obj new len True show ?thesis by (simp add: byte_at_def)
  next
    case False
    with obj new len show ?thesis by (simp add: byte_at_def)
  qed
  from run str nul_at beyond show ?thesis unfolding msg_def by blast
qed

text \<open>The bound of 76 bytes is attained.\<close>

lemma message_size_attained:
  "length (result_text (- 1000000000) (- 1000000000) (- 1000000000 + - 1000000000)) + 1 = 76"
  by (simp add: result_text_def fmt_d_def dec_digits.simps digit_char_def)

text \<open>A second call, after the buffer is reset, starts from \<open>later_world\<close>.\<close>

lemma later_world_second_call:
  "after (heap_update (\<lambda>h. heap demo_world)) (dyloading_add 2 3 demo_buf demo_world) =
     Some later_world"
  by (simp add: dyloading_add_eq after_def later_world_def sample_defs NUL_def NL_def)

section \<open>The claims\<close>

text \<open>
  C1. For every pair of 32-bit signed integers \<open>a\<close> and \<open>b\<close> whose sum does not overflow
  the 32-bit signed range, a valid call \<open>dyloading_add a b result\<close> returns, and the value
  it returns is exactly \<open>a + b\<close>.
\<close>

theorem dyloading_add_returns_sum:
  assumes "valid_call a b result w"
    and "- (2 ^ 31) \<le> sint a + sint b" and "sint a + sint b < 2 ^ 31"
  shows "\<exists>r w'. dyloading_add a b result w = Inr (r, w') \<and> sint r = sint a + sint b"
proof -
  from assms(1) obtain w' where "dyloading_add a b result w = Inr (a + b, w')"
    using buffer_after_valid_call by blast
  moreover have "sint (a + b) = sint a + sint b"
    using assms(2,3) by (rule sint_add_in_range)
  ultimately show ?thesis by blast
qed

theorem dyloading_add_returns_sum_witness:
  "valid_call 2 3 demo_buf demo_world \<and>
   - (2 ^ 31) \<le> sint (2 :: int32_t) + sint (3 :: int32_t) \<and>
   sint (2 :: int32_t) + sint (3 :: int32_t) < 2 ^ 31 \<and>
   (\<exists>r w'. dyloading_add 2 3 demo_buf demo_world = Inr (r, w') \<and> sint r = 5)"
proof -
  have v: "valid_call 2 3 demo_buf demo_world" by (simp add: sample_defs)
  have lo: "- (2 ^ 31) \<le> sint (2 :: int32_t) + sint (3 :: int32_t)" by simp
  have hi: "sint (2 :: int32_t) + sint (3 :: int32_t) < 2 ^ 31" by simp
  show ?thesis using v lo hi dyloading_add_returns_sum [OF v lo hi] by simp
qed

text \<open>
  C2. For every such pair, after the call the buffer holds exactly the string
  \<open>[External dyloading] The result (<a> + <b>) is <sum>!\<close>, where the three parts are the
  decimal texts of \<open>a\<close>, \<open>b\<close> and \<open>a + b\<close>: no leading zeros, and a minus sign for a
  negative value. By \<open>decimal_text_unique\<close> this fixes every byte of the string.
\<close>

theorem dyloading_add_buffer_text:
  assumes "valid_call a b result w"
    and "- (2 ^ 31) \<le> sint a + sint b" and "sint a + sint b < 2 ^ 31"
  shows "\<exists>r w' sa sb ss. dyloading_add a b result w = Inr (r, w') \<and>
           load_string result w' =
             Inr (''[External dyloading] The result ('' @ sa @ '' + '' @ sb @
                  '') is '' @ ss @ ''!'') \<and>
           decimal_text (sint a) sa \<and> decimal_text (sint b) sb \<and>
           decimal_text (sint a + sint b) ss"
proof -
  from assms(1) obtain w' where run: "dyloading_add a b result w = Inr (a + b, w')"
    and buf: "load_string result w' = Inr (result_text a b (a + b))"
    using buffer_after_valid_call by blast
  have "decimal_text (sint (a + b)) (fmt_d (a + b))" by (rule decimal_text_fmt_d)
  then have "decimal_text (sint a + sint b) (fmt_d (a + b))"
    using assms(2,3) by (simp only: sint_add_in_range)
  with run buf decimal_text_fmt_d [of a] decimal_text_fmt_d [of b] show ?thesis
    unfolding result_text_def by blast
qed

theorem dyloading_add_buffer_text_witness:
  "valid_call (- 7) 2 demo_buf demo_world \<and>
   - (2 ^ 31) \<le> sint (- 7 :: int32_t) + sint (2 :: int32_t) \<and>
   sint (- 7 :: int32_t) + sint (2 :: int32_t) < 2 ^ 31 \<and>
   (\<exists>r w' sa sb ss. dyloading_add (- 7) 2 demo_buf demo_world = Inr (r, w') \<and>
      load_string demo_buf w' =
        Inr (''[External dyloading] The result ('' @ sa @ '' + '' @ sb @
             '') is '' @ ss @ ''!'') \<and>
      decimal_text (- 7) sa \<and> decimal_text 2 sb \<and> decimal_text (- 5) ss)"
proof -
  have v: "valid_call (- 7) 2 demo_buf demo_world" by (simp add: sample_defs)
  have lo: "- (2 ^ 31) \<le> sint (- 7 :: int32_t) + sint (2 :: int32_t)" by simp
  have hi: "sint (- 7 :: int32_t) + sint (2 :: int32_t) < 2 ^ 31" by simp
  show ?thesis using v lo hi dyloading_add_buffer_text [OF v lo hi] by simp
qed

text \<open>
  C3, as stated, fails: the label is printed as it is, so a label that holds a newline
  makes the call write two lines. Here the buffer holds \<open>a\<close>, a newline and \<open>b\<close>.
\<close>

theorem dyloading_add_two_lines:
  "valid_call 2 3 demo_buf two_line_world \<and>
   load_string demo_buf two_line_world = Inr ''a\<newline>b'' \<and>
   map_option lines_of
     (after (written two_line_world) (dyloading_add 2 3 demo_buf two_line_world)) =
   Some [''[External dyloading] Hello a'', ''b'']"
  by (simp add: dyloading_add_eq after_def written_def load_string_def two_line_world_def
      sample_defs NUL_def NL_def)

text \<open>
  C3, amended. Every valid call appends to standard output exactly the text
  \<open>[External dyloading] Hello \<close>, then the string the buffer held before the call, then one
  newline; the string is read before the buffer is overwritten. What is written is one
  line, made of the greeting and that string, exactly when the string holds no newline.
\<close>

theorem dyloading_add_stdout:
  assumes "valid_call a b result w"
  shows "\<exists>r w' s. dyloading_add a b result w = Inr (r, w') \<and>
           load_string result w = Inr s \<and>
           stdout w' = stdout w @ ''[External dyloading] Hello '' @ s @ [NL] \<and>
           (lines_of (written w w') = [''[External dyloading] Hello '' @ s]) = (NL \<notin> set s)"
proof -
  from assms obtain obj where obj: "heap w (block result) = Some obj"
    and nul: "NUL \<in> set (drop (offset result) obj)"
    and run: "dyloading_add a b result w = Inr (a + b,
            w\<lparr>stdout := stdout w @ ''[External dyloading] Hello '' @
                 takeWhile (\<lambda>c. c \<noteq> NUL) (drop (offset result) obj) @ [NL],
              heap := (heap w)(block result \<mapsto>
                 take (offset result) obj @ (result_text a b (a + b) @ [NUL]) @
                 drop (offset result + (length (result_text a b (a + b)) + 1)) obj)\<rparr>)"
    by (rule valid_callE)
  define s where "s = takeWhile (\<lambda>c. c \<noteq> NUL) (drop (offset result) obj)"
  define w' where "w' = w\<lparr>stdout := stdout w @ ''[External dyloading] Hello '' @ s @ [NL],
              heap := (heap w)(block result \<mapsto>
                 take (offset result) obj @ (result_text a b (a + b) @ [NUL]) @
                 drop (offset result + (length (result_text a b (a + b)) + 1)) obj)\<rparr>"
  have 1: "dyloading_add a b result w = Inr (a + b, w')"
    unfolding w'_def s_def by (rule run)
  have 2: "load_string result w = Inr s"
    using obj nul by (simp add: load_string_def s_def)
  have 3: "stdout w' = stdout w @ ''[External dyloading] Hello '' @ s @ [NL]"
    by (simp add: w'_def)
  have "written w w' = (''[External dyloading] Hello '' @ s) @ [NL]"
    by (simp add: written_def 3)
  then have 4: "(lines_of (written w w') = [''[External dyloading] Hello '' @ s]) =
      (NL \<notin> set (''[External dyloading] Hello '' @ s))"
    by (simp only: one_line_iff)
  have 5: "(NL \<notin> set (''[External dyloading] Hello '' @ s)) = (NL \<notin> set s)"
    using hello_no_newline by simp
  from 1 2 3 4 5 show ?thesis by blast
qed

theorem dyloading_add_stdout_witness:
  "valid_call 2 3 demo_buf demo_world \<and>
   (\<exists>r w' s. dyloading_add 2 3 demo_buf demo_world = Inr (r, w') \<and>
      load_string demo_buf demo_world = Inr s \<and>
      stdout w' = stdout demo_world @ ''[External dyloading] Hello '' @ s @ [NL] \<and>
      (lines_of (written demo_world w') = [''[External dyloading] Hello '' @ s]) =
        (NL \<notin> set s))"
proof -
  have v: "valid_call 2 3 demo_buf demo_world" by (simp add: sample_defs)
  show ?thesis using v dyloading_add_stdout [OF v] by simp
qed

text \<open>
  C4. The three scenarios: \<open>dyloading_add 2 3\<close> returns 5 and leaves
  \<open>[External dyloading] The result (2 + 3) is 5!\<close> in the buffer; \<open>dyloading_add (-7) 2\<close>
  returns -5 and leaves \<open>[External dyloading] The result (-7 + 2) is -5!\<close>;
  \<open>dyloading_add 0 0\<close> returns 0 and leaves \<open>[External dyloading] The result (0 + 0) is 0!\<close>.
\<close>

theorem dyloading_add_scenarios:
  "(valid_call 2 3 buf w \<longrightarrow>
      (\<exists>w'. dyloading_add 2 3 buf w = Inr (5, w') \<and>
         load_string buf w' = Inr ''[External dyloading] The result (2 + 3) is 5!'')) \<and>
   (valid_call (- 7) 2 buf w \<longrightarrow>
      (\<exists>w'. dyloading_add (- 7) 2 buf w = Inr (- 5, w') \<and>
         load_string buf w' = Inr ''[External dyloading] The result (-7 + 2) is -5!'')) \<and>
   (valid_call 0 0 buf w \<longrightarrow>
      (\<exists>w'. dyloading_add 0 0 buf w = Inr (0, w') \<and>
         load_string buf w' = Inr ''[External dyloading] The result (0 + 0) is 0!''))"
proof -
  have t1: "result_text 2 3 5 = ''[External dyloading] The result (2 + 3) is 5!''"
    by (simp add: result_text_def fmt_d_def dec_digits.simps digit_char_def)
  have t2: "result_text (- 7) 2 (- 5) = ''[External dyloading] The result (-7 + 2) is -5!''"
    by (simp add: result_text_def fmt_d_def dec_digits.simps digit_char_def)
  have t3: "result_text 0 0 0 = ''[External dyloading] The result (0 + 0) is 0!''"
    by (simp add: result_text_def fmt_d_def dec_digits.simps digit_char_def)
  have s1: "(2 :: int32_t) + 3 = 5" by simp
  have s2: "(- 7 :: int32_t) + 2 = - 5" by simp
  have s3: "(0 :: int32_t) + 0 = 0" by simp
  show ?thesis
    using buffer_after_valid_call [of 2 3 buf w] buffer_after_valid_call [of "- 7" 2 buf w]
      buffer_after_valid_call [of 0 0 buf w]
    unfolding s1 s2 s3 t1 t2 t3 by blast
qed

theorem dyloading_add_scenarios_witness:
  "valid_call 2 3 demo_buf demo_world \<and> valid_call (- 7) 2 demo_buf demo_world \<and>
   valid_call 0 0 demo_buf demo_world \<and>
   (\<exists>w'. dyloading_add 2 3 demo_buf demo_world = Inr (5, w') \<and>
      load_string demo_buf w' = Inr ''[External dyloading] The result (2 + 3) is 5!'') \<and>
   (\<exists>w'. dyloading_add (- 7) 2 demo_buf demo_world = Inr (- 5, w') \<and>
      load_string demo_buf w' = Inr ''[External dyloading] The result (-7 + 2) is -5!'') \<and>
   (\<exists>w'. dyloading_add 0 0 demo_buf demo_world = Inr (0, w') \<and>
      load_string demo_buf w' = Inr ''[External dyloading] The result (0 + 0) is 0!'')"
proof -
  have v1: "valid_call 2 3 demo_buf demo_world" by (simp add: sample_defs)
  have v2: "valid_call (- 7) 2 demo_buf demo_world" by (simp add: sample_defs)
  have v3: "valid_call 0 0 demo_buf demo_world" by (simp add: sample_defs)
  show ?thesis
    using v1 v2 v3 dyloading_add_scenarios [of demo_buf demo_world] by blast
qed

text \<open>
  C5. For every pair of 32-bit signed integers, also one whose mathematical sum is out of
  range, the call returns: no overflow check stops it. The value returned is the sum
  reduced modulo \<open>2 ^ 32\<close> into the signed 32-bit range, and it is that value whose decimal
  text stands in the buffer as the sum.
\<close>

theorem dyloading_add_wraps:
  assumes "valid_call a b result w"
  shows "\<exists>r w' sa sb ss. dyloading_add a b result w = Inr (r, w') \<and>
           - (2 ^ 31) \<le> sint r \<and> sint r < 2 ^ 31 \<and>
           sint r mod 2 ^ 32 = (sint a + sint b) mod 2 ^ 32 \<and>
           load_string result w' =
             Inr (''[External dyloading] The result ('' @ sa @ '' + '' @ sb @
                  '') is '' @ ss @ ''!'') \<and>
           decimal_text (sint a) sa \<and> decimal_text (sint b) sb \<and>
           decimal_text (sint r) ss"
proof -
  from assms(1) obtain w' where run: "dyloading_add a b result w = Inr (a + b, w')"
    and buf: "load_string result w' = Inr (result_text a b (a + b))"
    using buffer_after_valid_call by blast
  have "- (2 ^ 31) \<le> sint (a + b)" and "sint (a + b) < 2 ^ 31"
    using sint32_bounds [of "a + b"] by simp_all
  with run buf sint_add_wraps [of a b]
    decimal_text_fmt_d [of a] decimal_text_fmt_d [of b] decimal_text_fmt_d [of "a + b"]
  show ?thesis
    unfolding result_text_def by blast
qed

theorem dyloading_add_wraps_witness:
  "valid_call 2147483647 1 demo_buf demo_world \<and>
   (\<exists>r w' sa sb ss. dyloading_add 2147483647 1 demo_buf demo_world = Inr (r, w') \<and>
      - (2 ^ 31) \<le> sint r \<and> sint r < 2 ^ 31 \<and>
      sint r mod 2 ^ 32 = 2147483648 \<and>
      load_string demo_buf w' =
        Inr (''[External dyloading] The result ('' @ sa @ '' + '' @ sb @
             '') is '' @ ss @ ''!'') \<and>
      decimal_text 2147483647 sa \<and> decimal_text 1 sb \<and> decimal_text (sint r) ss)"
proof -
  have v: "valid_call 2147483647 1 demo_buf demo_world" by (simp add: sample_defs)
  show ?thesis using v dyloading_add_wraps [OF v] by simp
qed

text \<open>
  C6. The function is deterministic and keeps no state: two calls with the same \<open>a\<close> and
  \<open>b\<close> on buffers with the same contents return the same value, leave the same buffer
  and write the same text, whatever else differs between the two worlds (what standard
  output already holds, the other objects in memory, the rest of the process).
\<close>

theorem dyloading_add_deterministic:
  assumes "heap w1 (block p1) = heap w2 (block p2)" and "offset p1 = offset p2"
  shows "observe p1 w1 (dyloading_add a b p1 w1) = observe p2 w2 (dyloading_add a b p2 w2)"
  using assms
  by (simp add: dyloading_add_eq observe_def written_def split: option.split)

theorem dyloading_add_deterministic_witness:
  "heap demo_world (block demo_buf) = heap later_world (block demo_buf) \<and>
   offset demo_buf = offset demo_buf \<and>
   observe demo_buf demo_world (dyloading_add 2 3 demo_buf demo_world) =
     observe demo_buf later_world (dyloading_add 2 3 demo_buf later_world)"
proof -
  have h: "heap demo_world (block demo_buf) = heap later_world (block demo_buf)"
    by (simp add: demo_world_def later_world_def)
  have o: "offset demo_buf = offset demo_buf" by (rule refl)
  show ?thesis using h dyloading_add_deterministic [OF h o, of 2 3] by simp
qed

text \<open>
  C7. No error is signalled: for every pair of 32-bit signed integers, a call whose buffer
  holds a string and has room for 76 bytes runs to completion and returns the sum; no
  value of the result is set aside as an error code.
\<close>

theorem dyloading_add_no_error:
  assumes "readable_string result w" and "76 \<le> capacity result w"
  shows "\<exists>w'. dyloading_add a b result w = Inr (a + b, w')"
proof -
  have "length (result_text a b (a + b)) < capacity result w"
    using assms(2) length_result_text_le [of a b "a + b"] by simp
  with assms(1) have "valid_call a b result w" by (simp add: valid_call_def)
  then show ?thesis using buffer_after_valid_call by blast
qed

theorem dyloading_add_no_error_witness:
  "readable_string demo_buf demo_world \<and> 76 \<le> capacity demo_buf demo_world \<and>
   (\<exists>w'. dyloading_add 2147483647 2147483647 demo_buf demo_world = Inr (2147483647 + 2147483647, w'))"
proof -
  have r: "readable_string demo_buf demo_world" by (simp add: sample_defs)
  have c: "76 \<le> capacity demo_buf demo_world" by (simp add: sample_defs)
  show ?thesis
    using r c dyloading_add_no_error [OF r c, of 2147483647 2147483647] by simp
qed

text \<open>
  C8. A call has two effects only: standard output gains text at its end, and the bytes
  of the buffer from \<open>result\<close> on change. Every other object in memory, the bytes of the
  object before \<open>result\<close>, the size of the object and the rest of the process state stay
  as they were. (The operands are passed by value: the call cannot change them.)
\<close>

theorem dyloading_add_frame:
  assumes "valid_call a b result w"
  shows "\<exists>r w' out obj obj'. dyloading_add a b result w = Inr (r, w') \<and>
           stdout w' = stdout w @ out \<and>
           (\<forall>blk. blk \<noteq> block result \<longrightarrow> heap w' blk = heap w blk) \<and>
           heap w (block result) = Some obj \<and> heap w' (block result) = Some obj' \<and>
           length obj' = length obj \<and>
           take (offset result) obj' = take (offset result) obj \<and>
           world.more w' = world.more w"
proof -
  from assms obtain obj where obj: "heap w (block result) = Some obj"
    and room: "offset result + length (result_text a b (a + b)) < length obj"
    and run: "dyloading_add a b result w = Inr (a + b,
            w\<lparr>stdout := stdout w @ ''[External dyloading] Hello '' @
                 takeWhile (\<lambda>c. c \<noteq> NUL) (drop (offset result) obj) @ [NL],
              heap := (heap w)(block result \<mapsto>
                 take (offset result) obj @ (result_text a b (a + b) @ [NUL]) @
                 drop (offset result + (length (result_text a b (a + b)) + 1)) obj)\<rparr>)"
    by (rule valid_callE)
  define obj' where "obj' = take (offset result) obj @ (result_text a b (a + b) @ [NUL]) @
                 drop (offset result + (length (result_text a b (a + b)) + 1)) obj"
  define out where "out = ''[External dyloading] Hello '' @
                 takeWhile (\<lambda>c. c \<noteq> NUL) (drop (offset result) obj) @ [NL]"
  define w' where "w' = w\<lparr>stdout := stdout w @ out, heap := (heap w)(block result \<mapsto> obj')\<rparr>"
  have 1: "dyloading_add a b result w = Inr (a + b, w')"
    unfolding w'_def obj'_def out_def by (rule run)
  have 2: "stdout w' = stdout w @ out" by (simp add: w'_def)
  have 3: "\<forall>blk. blk \<noteq> block result \<longrightarrow> heap w' blk = heap w blk" by (simp add: w'_def)
  have 4: "heap w' (block result) = Some obj'" by (simp add: w'_def)
  have 5: "length obj' = length obj" using room by (simp add: obj'_def)
  have 6: "take (offset result) obj' = take (offset result) obj"
    using room by (simp add: obj'_def)
  have 7: "world.more w' = world.more w" by (simp add: w'_def)
  from 1 2 3 obj 4 5 6 7 show ?thesis by blast
qed

theorem dyloading_add_frame_witness:
  "valid_call 2 3 \<lparr>block = 0, offset = 0\<rparr> later_world \<and>
   (\<exists>r w' out obj obj'. dyloading_add 2 3 \<lparr>block = 0, offset = 0\<rparr> later_world = Inr (r, w') \<and>
      stdout w' = stdout later_world @ out \<and>
      (\<forall>blk. blk \<noteq> 0 \<longrightarrow> heap w' blk = heap later_world blk) \<and>
      heap later_world 0 = Some obj \<and> heap w' 0 = Some obj' \<and>
      length obj' = length obj \<and> take 0 obj' = take 0 obj \<and>
      world.more w' = world.more later_world)"
proof -
  have v: "valid_call 2 3 \<lparr>block = 0, offset = 0\<rparr> later_world"
    by (simp add: later_world_def sample_defs)
  show ?thesis using v dyloading_add_frame [OF v] by simp
qed

text \<open>
  C9, as stated, fails at the position equal to the length of the message: \<open>sprintf\<close>
  stores the terminating \<open>NUL\<close> there. For \<open>dyloading_add 2 3\<close> the message has 45
  characters, and the byte at position 45 changes from \<open>x\<close> to \<open>NUL\<close>.
\<close>

theorem dyloading_add_terminator_byte:
  "after (load_string demo_buf) (dyloading_add 2 3 demo_buf demo_world) =
     Some (Inr ''[External dyloading] The result (2 + 3) is 5!'') \<and>
   length ''[External dyloading] The result (2 + 3) is 5!'' = 45 \<and>
   byte_at demo_buf 45 demo_world = Some (CHR ''x'') \<and>
   after (byte_at demo_buf 45) (dyloading_add 2 3 demo_buf demo_world) = Some (Some NUL) \<and>
   CHR ''x'' \<noteq> NUL"
  by (simp add: dyloading_add_eq after_def byte_at_def load_string_def sample_defs NUL_def)

text \<open>
  C9, amended. A valid call writes the formatted message
  \<open>[External dyloading] The result (<a> + <b>) is <sum>!\<close> and one terminating \<open>NUL\<close>, and
  nothing beyond: after the call the buffer holds that message, the byte at the position
  equal to the length of the message is \<open>NUL\<close>, and every byte of the buffer at a greater
  position keeps the value it had before the call.
\<close>

theorem dyloading_add_bytes_beyond:
  assumes "valid_call a b result w"
  shows "\<exists>r w' sa sb ss msg. dyloading_add a b result w = Inr (r, w') \<and>
           msg = ''[External dyloading] The result ('' @ sa @ '' + '' @ sb @
                 '') is '' @ ss @ ''!'' \<and>
           decimal_text (sint a) sa \<and> decimal_text (sint b) sb \<and>
           decimal_text (sint r) ss \<and>
           load_string result w' = Inr msg \<and>
           (\<forall>i. i < length msg \<longrightarrow> byte_at result i w' = Some (msg ! i)) \<and>
           byte_at result (length msg) w' = Some NUL \<and>
           (\<forall>i. length msg < i \<longrightarrow> byte_at result i w' = byte_at result i w)"
proof -
  define msg where "msg = result_text a b (a + b)"
  from assms obtain w' where run: "dyloading_add a b result w = Inr (a + b, w')"
    and str: "load_string result w' = Inr msg"
    and nul: "byte_at result (length msg) w' = Some NUL"
    and beyond: "\<forall>i. length msg < i \<longrightarrow> byte_at result i w' = byte_at result i w"
    unfolding msg_def using bytes_after_valid_call by blast
  from assms obtain obj w'' where room: "offset result + length msg < length obj"
    and run': "dyloading_add a b result w = Inr (a + b, w'')"
    and obj': "heap w'' (block result) =
           Some (take (offset result) obj @ (msg @ [NUL]) @
                 drop (offset result + length (msg @ [NUL])) obj)"
    unfolding msg_def by (rule stored_message)
  from run run' have same: "w'' = w'" by simp
  define new where "new = take (offset result) obj @ (msg @ [NUL]) @
                 drop (offset result + length (msg @ [NUL])) obj"
  have new: "heap w' (block result) = Some new"
    unfolding new_def same [symmetric] by (rule obj')
  have len: "length new = length obj"
    unfolding new_def using room by (intro length_overwrite) simp
  have inside: "byte_at result i w' = Some (msg ! i)" if "i < length msg" for i
  proof -
    from room have "length (take (offset result) obj) = offset result" by simp
    with that have "new ! (offset result + i) = msg ! i"
      unfolding new_def by (simp add: nth_append)
    with new len room that show ?thesis by (simp add: byte_at_def)
  qed
  have shape: "msg = ''[External dyloading] The result ('' @ fmt_d a @ '' + '' @ fmt_d b @
                 '') is '' @ fmt_d (a + b) @ ''!''"
    by (simp add: msg_def result_text_def)
  from run shape str inside nul beyond
    decimal_text_fmt_d [of a] decimal_text_fmt_d [of b] decimal_text_fmt_d [of "a + b"]
  show ?thesis by blast
qed

theorem dyloading_add_bytes_beyond_witness:
  "valid_call 2 3 demo_buf demo_world \<and>
   (\<exists>r w' sa sb ss msg. dyloading_add 2 3 demo_buf demo_world = Inr (r, w') \<and>
      msg = ''[External dyloading] The result ('' @ sa @ '' + '' @ sb @
            '') is '' @ ss @ ''!'' \<and>
      decimal_text 2 sa \<and> decimal_text 3 sb \<and> decimal_text (sint r) ss \<and>
      load_string demo_buf w' = Inr msg \<and>
      (\<forall>i. i < length msg \<longrightarrow> byte_at demo_buf i w' = Some (msg ! i)) \<and>
      byte_at demo_buf (length msg) w' = Some NUL \<and>
      (\<forall>i. length msg < i \<longrightarrow> byte_at demo_buf i w' = byte_at demo_buf i demo_world))"
proof -
  have v: "valid_call 2 3 demo_buf demo_world" by (simp add: sample_defs)
  show ?thesis using v dyloading_add_bytes_beyond [OF v] by simp
qed

text \<open>
  C10. For every pair of 32-bit signed integers the text stored in the buffer is a
  \<open>NUL\<close>-terminated string of at most 76 bytes with its terminator: 42 fixed characters and
  at most 11 for each of the three numbers. So a buffer of at least 76 bytes is never
  overrun.
\<close>

theorem dyloading_add_message_size:
  assumes "76 \<le> capacity result w"
  shows "dyloading_add a b result w \<noteq> Inl WriteOverrun \<and>
         (readable_string result w \<longrightarrow>
            (\<exists>r w' msg. dyloading_add a b result w = Inr (r, w') \<and>
               load_string result w' = Inr msg \<and>
               byte_at result (length msg) w' = Some NUL \<and>
               length msg = 42 + length (fmt_d a) + length (fmt_d b) + length (fmt_d r) \<and>
               length (fmt_d a) \<le> 11 \<and> length (fmt_d b) \<le> 11 \<and> length (fmt_d r) \<le> 11 \<and>
               length msg + 1 \<le> 76))"
proof
  have small: "length (result_text a b (a + b)) \<le> 75" by (rule length_result_text_le)
  with assms show "dyloading_add a b result w \<noteq> Inl WriteOverrun"
    by (auto simp add: dyloading_add_eq capacity_def split: option.splits)
  show "readable_string result w \<longrightarrow>
            (\<exists>r w' msg. dyloading_add a b result w = Inr (r, w') \<and>
               load_string result w' = Inr msg \<and>
               byte_at result (length msg) w' = Some NUL \<and>
               length msg = 42 + length (fmt_d a) + length (fmt_d b) + length (fmt_d r) \<and>
               length (fmt_d a) \<le> 11 \<and> length (fmt_d b) \<le> 11 \<and> length (fmt_d r) \<le> 11 \<and>
               length msg + 1 \<le> 76)"
  proof
    assume "readable_string result w"
    with assms small have "valid_call a b result w" by (simp add: valid_call_def)
    then obtain w' where "dyloading_add a b result w = Inr (a + b, w')"
      and "load_string result w' = Inr (result_text a b (a + b))"
      and "byte_at result (length (result_text a b (a + b))) w' = Some NUL"
      using bytes_after_valid_call by blast
    moreover have "length (result_text a b (a + b)) =
        42 + length (fmt_d a) + length (fmt_d b) + length (fmt_d (a + b))"
      by (rule length_result_text)
    moreover have "length (result_text a b (a + b)) + 1 \<le> 76" using small by simp
    ultimately show "\<exists>r w' msg. dyloading_add a b result w = Inr (r, w') \<and>
               load_string result w' = Inr msg \<and>
               byte_at result (length msg) w' = Some NUL \<and>
               length msg = 42 + length (fmt_d a) + length (fmt_d b) + length (fmt_d r) \<and>
               length (fmt_d a) \<le> 11 \<and> length (fmt_d b) \<le> 11 \<and> length (fmt_d r) \<le> 11 \<and>
               length msg + 1 \<le> 76"
      using length_fmt_d [of a] length_fmt_d [of b] length_fmt_d [of "a + b"] by blast
  qed
qed

theorem dyloading_add_message_size_witness:
  "76 \<le> capacity demo_buf demo_world \<and> readable_string demo_buf demo_world \<and>
   dyloading_add (- 1000000000) (- 1000000000) demo_buf demo_world \<noteq> Inl WriteOverrun \<and>
   (\<exists>r w' msg. dyloading_add (- 1000000000) (- 1000000000) demo_buf demo_world = Inr (r, w') \<and>
      load_string demo_buf w' = Inr msg \<and>
      byte_at demo_buf (length msg) w' = Some NUL \<and>
      length msg = 42 + length (fmt_d (- 1000000000)) + length (fmt_d (- 1000000000)) +
        length (fmt_d r) \<and>
      length msg + 1 \<le> 76)"
proof -
  have c: "76 \<le> capacity demo_buf demo_world" by (simp add: sample_defs)
  have r: "readable_string demo_buf demo_world" by (simp add: sample_defs)
  show ?thesis
    using c r dyloading_add_message_size [OF c, of "- 1000000000" "- 1000000000"] by blast
qed

end
